theory Spec2Isabelle
  imports Complex_Main "HOL-Library.Char_ord" "HOL-Library.List_Lexorder"
begin

section \<open>AutoBackup: the data the handler works on\<close>

text \<open>
  The program is one Python file, \<^verbatim>\<open>AutoBackup.py\<close>: a watchdog handler
  (\<^verbatim>\<open>BackupHandler\<close>) with two timestamps, a polling loop (\<^verbatim>\<open>start\<close>) and a clean-up
  of old backups. The model is sequential: one operation of the handler runs at a time, and
  every reading of a clock or of the file system is an argument of the operation that
  takes it. Timestamps (\<^verbatim>\<open>time.time()\<close>, \<^verbatim>\<open>os.path.getmtime\<close>) are real numbers;
  the rounding of Python's floats is not modelled.
\<close>

text \<open>The configuration: the constructor arguments of \<^verbatim>\<open>BackupHandler\<close> that never change.\<close>

record config =
  source_path :: string
  backup_dir :: string
  buffer_size :: int
  cooldown :: int
  use_zip :: bool

text \<open>
  One direct child of \<^verbatim>\<open>backup_dir\<close>: its name, what \<^verbatim>\<open>os.path.isdir\<close> says of it and
  what \<^verbatim>\<open>os.path.getmtime\<close> says of it.
\<close>

record entry =
  name :: string
  is_dir :: bool
  mtime :: real

text \<open>
  The mutable fields of the handler, the children of \<^verbatim>\<open>backup_dir\<close> in the order
  \<^verbatim>\<open>os.listdir\<close> returns them, and the messages written by \<^verbatim>\<open>log_message\<close> (the
  wall-clock prefix that \<^verbatim>\<open>log_message\<close> puts before each message is left out).
\<close>

record state =
  last_change_time :: real
  last_backup_time :: real
  files :: "entry list"
  log_lines :: "string list"

text \<open>The exceptions the file operations raise.\<close>

datatype error = FileExistsError | IsADirectoryError | OSError

text \<open>A watchdog event: only \<^verbatim>\<open>event.is_directory\<close> is read.\<close>

record event =
  is_directory :: bool

text \<open>\<^verbatim>\<open>__init__\<close>: both timestamps start at 0, which stands for "not set".\<close>

definition init_state :: "entry list \<Rightarrow> string list \<Rightarrow> state" where
  "init_state fs lg =
     \<lparr>last_change_time = 0, last_backup_time = 0, files = fs, log_lines = lg\<rparr>"


section \<open>Strings and paths\<close>

definition endswith :: "string \<Rightarrow> string \<Rightarrow> bool" where
  "endswith s suf =
     (length suf \<le> length s \<and> drop (length s - length suf) s = suf)"

text \<open>\<^verbatim>\<open>os.path.basename\<close> (POSIX): what follows the last slash.\<close>

definition basename :: "string \<Rightarrow> string" where
  "basename p = rev (takeWhile (\<lambda>c. c \<noteq> CHR ''/'') (rev p))"

text \<open>\<^verbatim>\<open>os.path.join\<close> (POSIX) of two parts.\<close>

definition path_join :: "string \<Rightarrow> string \<Rightarrow> string" where
  "path_join a b =
     (if b \<noteq> [] \<and> hd b = CHR ''/'' then b
      else if a = [] \<or> last a = CHR ''/'' then a @ b
      else a @ ''/'' @ b)"

section \<open>The handler\<close>

text \<open>\<^verbatim>\<open>on_any_event\<close>; \<open>now\<close> is the reading of \<^verbatim>\<open>time.time()\<close> in the callback.\<close>

definition on_any_event :: "event \<Rightarrow> real \<Rightarrow> state \<Rightarrow> state" where
  "on_any_event ev now s =
     (if \<not> is_directory ev then s\<lparr>last_change_time := now\<rparr> else s)"

text \<open>\<^verbatim>\<open>should_backup\<close>; \<open>now\<close> is the reading of \<^verbatim>\<open>time.time()\<close>.\<close>

definition should_backup :: "config \<Rightarrow> real \<Rightarrow> state \<Rightarrow> bool" where
  "should_backup cfg now s =
     (last_change_time s > last_backup_time s
      \<and> now - last_change_time s \<ge> real_of_int (cooldown cfg))"

definition log_message :: "string \<Rightarrow> state \<Rightarrow> state" where
  "log_message message s = s\<lparr>log_lines := log_lines s @ [message]\<rparr>"

subsection \<open>cleanup_backups\<close>

text \<open>The filter of the list comprehension.\<close>

definition matching :: "entry \<Rightarrow> bool" where
  "matching f = (endswith (name f) ''.zip'' \<or> is_dir f)"

text \<open>
  \<^verbatim>\<open>sorted(xs, key=k, reverse=True)\<close>: Python reverses the list, sorts it stably in
  ascending order and reverses the result, so equal keys keep their order.
\<close>

definition sorted_reverse :: "('a \<Rightarrow> 'k::linorder) \<Rightarrow> 'a list \<Rightarrow> 'a list" where
  "sorted_reverse k xs = rev (sort_key k (rev xs))"

definition items :: "state \<Rightarrow> entry list" where
  "items s = sorted_reverse mtime (filter matching (files s))"

text \<open>The slice \<^verbatim>\<open>xs[i:]\<close>, a negative \<open>i\<close> counting from the end.\<close>

definition slice_from :: "'a list \<Rightarrow> int \<Rightarrow> 'a list" where
  "slice_from xs i =
     (if i < 0 then drop (nat (int (length xs) + i)) xs else drop (nat i) xs)"

text \<open>
  The \<^verbatim>\<open>for old in ...\<close> loop. \<open>rm_fails\<close> tells of which names the deletion
  (\<^verbatim>\<open>shutil.rmtree\<close> or \<^verbatim>\<open>os.remove\<close>) raises; the exception leaves the loop.
\<close>

fun remove_loop :: "(string \<Rightarrow> bool) \<Rightarrow> entry list \<Rightarrow> state \<Rightarrow> error option \<times> state" where
  "remove_loop rm_fails [] s = (None, s)"
| "remove_loop rm_fails (old # rest) s =
     (if rm_fails (name old) then (Some OSError, s)
      else remove_loop rm_fails rest
             (log_message (''[CLEANUP] Removed old backup: '' @ name old)
                (s\<lparr>files := filter (\<lambda>f. name f \<noteq> name old) (files s)\<rparr>)))"

definition cleanup_backups :: "config \<Rightarrow> (string \<Rightarrow> bool) \<Rightarrow> state \<Rightarrow> error option \<times> state" where
  "cleanup_backups cfg rm_fails s =
     (if buffer_size cfg \<le> 0 then (None, s)
      else remove_loop rm_fails (slice_from (items s) (buffer_size cfg)) s)"

subsection \<open>create_backup\<close>

text \<open>
  How the write of the snapshot (\<^verbatim>\<open>zipfile.ZipFile(..., "w")\<close> with its
  \<^verbatim>\<open>zipf.write\<close> calls, or \<^verbatim>\<open>shutil.copytree\<close>) ends, as far as the environment
  decides it: it completes; it raises at its first step, before it looks at the
  destination (the archive cannot be opened, the source cannot be listed); or it raises
  after having created the artifact under its name (an archive that was opened, a folder
  that was made).
\<close>

datatype write_outcome = Written | FailsBeforeCreate | FailsAfterCreate

text \<open>
  What one call of \<^verbatim>\<open>create_backup\<close> reads from outside: the string
  \<^verbatim>\<open>datetime.now().strftime("%Y-%m-%d_%H-%M-%S")\<close>, how the write ends, the
  modification time the new artifact gets, the reading of \<^verbatim>\<open>time.time()\<close> stored in
  \<^verbatim>\<open>last_backup_time\<close>, and the names whose deletion raises.
\<close>

record cycle_env =
  timestamp :: string
  write_result :: write_outcome
  new_mtime :: real
  done_time :: real
  rm_fails_of :: "string \<Rightarrow> bool"

definition backup_name :: "config \<Rightarrow> string \<Rightarrow> string" where
  "backup_name cfg ts = basename (source_path cfg) @ ''_'' @ ts"

definition exists_entry :: "string \<Rightarrow> entry list \<Rightarrow> bool" where
  "exists_entry n fs = (n \<in> set (map name fs))"

definition isdir :: "string \<Rightarrow> entry list \<Rightarrow> bool" where
  "isdir n fs = ((n, True) \<in> set (map (\<lambda>f. (name f, is_dir f)) fs))"

text \<open>
  A file written under a name: an entry of that name is replaced where it stands
  (opening with mode \<^verbatim>\<open>"w"\<close> truncates it), a new name is listed last.
\<close>

definition put_entry :: "entry \<Rightarrow> entry list \<Rightarrow> entry list" where
  "put_entry e fs =
     (if exists_entry (name e) fs then map (\<lambda>f. if name f = name e then e else f) fs
      else fs @ [e])"

text \<open>Lines 48 and 49: the timestamp of the backup, then the clean-up.\<close>

definition finish_backup :: "config \<Rightarrow> cycle_env \<Rightarrow> state \<Rightarrow> error option \<times> state" where
  "finish_backup cfg env s =
     cleanup_backups cfg (rm_fails_of env) (s\<lparr>last_backup_time := done_time env\<rparr>)"

text \<open>
  \<^verbatim>\<open>create_backup\<close>. In archive mode \<^verbatim>\<open>ZipFile(zip_path, "w")\<close> opens the path for
  writing, which raises only when the path is a directory (or the environment refuses);
  an archive already there is truncated. In copy mode \<^verbatim>\<open>copytree\<close> lists the source
  and then calls \<^verbatim>\<open>os.makedirs(dest_folder)\<close>, which raises \<^verbatim>\<open>FileExistsError\<close> when
  the path exists.
  No exception is caught: it leaves \<^verbatim>\<open>create_backup\<close> where it is raised.
\<close>

definition create_backup :: "config \<Rightarrow> cycle_env \<Rightarrow> state \<Rightarrow> error option \<times> state" where
  "create_backup cfg env s =
     (let bname = backup_name cfg (timestamp env) in
      if use_zip cfg then
        (let zname = bname @ ''.zip'';
             zip_path = path_join (backup_dir cfg) zname;
             made = s\<lparr>files :=
                      put_entry \<lparr>name = zname, is_dir = False, mtime = new_mtime env\<rparr> (files s)\<rparr>
         in if isdir zname (files s) then (Some IsADirectoryError, s)
            else (case write_result env of
                    FailsBeforeCreate \<Rightarrow> (Some OSError, s)
                  | FailsAfterCreate \<Rightarrow> (Some OSError, made)
                  | Written \<Rightarrow>
                      finish_backup cfg env
                        (log_message (''[BACKUP] Created ZIP: '' @ zip_path) made)))
      else
        (let dest_folder = path_join (backup_dir cfg) bname;
             made = s\<lparr>files :=
                      put_entry \<lparr>name = bname, is_dir = True, mtime = new_mtime env\<rparr> (files s)\<rparr>
         in if write_result env = FailsBeforeCreate then (Some OSError, s)
            else if exists_entry bname (files s) then (Some FileExistsError, s)
            else (case write_result env of
                    FailsBeforeCreate \<Rightarrow> (Some OSError, s)
                  | FailsAfterCreate \<Rightarrow> (Some OSError, made)
                  | Written \<Rightarrow>
                      finish_backup cfg env
                        (log_message (''[BACKUP] Copied folder: '' @ dest_folder) made))))"

text \<open>The snapshot of a cycle is written completely: the write neither collides nor raises.\<close>

definition write_succeeds :: "config \<Rightarrow> cycle_env \<Rightarrow> state \<Rightarrow> bool" where
  "write_succeeds cfg env s =
     (write_result env = Written \<and>
      (if use_zip cfg then \<not> isdir (backup_name cfg (timestamp env) @ ''.zip'') (files s)
       else \<not> exists_entry (backup_name cfg (timestamp env)) (files s)))"

subsection \<open>The polling loop of start\<close>

text \<open>
  One iteration of \<^verbatim>\<open>while True\<close>: the events the observer delivers during
  \<^verbatim>\<open>time.sleep(1)\<close>, each with the clock reading of its callback, the clock reading of
  \<^verbatim>\<open>should_backup\<close>, and what \<^verbatim>\<open>create_backup\<close> reads if it is called.
\<close>

record tick =
  events :: "(event \<times> real) list"
  poll_time :: real
  cycle :: cycle_env

definition deliver :: "(event \<times> real) list \<Rightarrow> state \<Rightarrow> state" where
  "deliver evs s = foldl (\<lambda>s' (ev, t). on_any_event ev t s') s evs"

definition poll_step :: "config \<Rightarrow> tick \<Rightarrow> state \<Rightarrow> error option \<times> state" where
  "poll_step cfg tk s =
     (let s1 = deliver (events tk) s in
      if should_backup cfg (poll_time tk) s1 then create_backup cfg (cycle tk) s1
      else (None, s1))"

text \<open>
  The loop over the iterations that happen before \<^verbatim>\<open>KeyboardInterrupt\<close>. The
  \<^verbatim>\<open>try\<close> catches \<^verbatim>\<open>KeyboardInterrupt\<close> only, so any other exception ends the loop
  and leaves \<^verbatim>\<open>start\<close>: the iterations after it never run.
\<close>

fun start_loop :: "config \<Rightarrow> tick list \<Rightarrow> state \<Rightarrow> error option \<times> state" where
  "start_loop cfg [] s = (None, s)"
| "start_loop cfg (tk # tks) s =
     (case poll_step cfg tk s of
        (Some e, s') \<Rightarrow> (Some e, s')
      | (None, s') \<Rightarrow> start_loop cfg tks s')"


subsection \<open>Auxiliary notions\<close>

text \<open>
  The artifacts the \<^verbatim>\<open>for\<close> loop of \<^verbatim>\<open>cleanup_backups\<close> iterates over (none when the
  function returns at its guard), the leading ones that are deleted before a deletion
  raises, and the log line of a deletion.
\<close>

definition excess :: "config \<Rightarrow> state \<Rightarrow> entry list" where
  "excess cfg s =
     (if buffer_size cfg \<le> 0 then [] else slice_from (items s) (buffer_size cfg))"

definition removed_of :: "(string \<Rightarrow> bool) \<Rightarrow> entry list \<Rightarrow> entry list" where
  "removed_of rm_fails xs = takeWhile (\<lambda>f. \<not> rm_fails (name f)) xs"

definition cleanup_line :: "entry \<Rightarrow> string" where
  "cleanup_line f = ''[CLEANUP] Removed old backup: '' @ name f"

text \<open>
  The order the specification asks of the clean-up, in its words: descending by
  modification time, ties broken by name descending. It is compared with the order of
  \<open>items\<close> below; no function of the program computes it.
\<close>

definition spec_before :: "entry \<Rightarrow> entry \<Rightarrow> bool" where
  "spec_before a b = (mtime b < mtime a \<or> (mtime a = mtime b \<and> name b \<le> name a))"

subsection \<open>Example inputs\<close>

definition ex_cfg :: "int \<Rightarrow> bool \<Rightarrow> config" where
  "ex_cfg n z =
     \<lparr>source_path = ''/data/src'', backup_dir = ''/data/AutoBackups'',
      buffer_size = n, cooldown = 5, use_zip = z\<rparr>"

definition file_at :: "string \<Rightarrow> real \<Rightarrow> entry" where
  "file_at n t = \<lparr>name = n, is_dir = False, mtime = t\<rparr>"

definition dir_at :: "string \<Rightarrow> real \<Rightarrow> entry" where
  "dir_at n t = \<lparr>name = n, is_dir = True, mtime = t\<rparr>"

definition ex_env :: "string \<Rightarrow> write_outcome \<Rightarrow> real \<Rightarrow> cycle_env" where
  "ex_env ts w t =
     \<lparr>timestamp = ts, write_result = w, new_mtime = t, done_time = t,
      rm_fails_of = (\<lambda>n. False)\<rparr>"

definition ex_tick :: "(event \<times> real) list \<Rightarrow> real \<Rightarrow> cycle_env \<Rightarrow> tick" where
  "ex_tick evs t env = \<lparr>events = evs, poll_time = t, cycle = env\<rparr>"

definition file_event :: "real \<Rightarrow> event \<times> real" where
  "file_event t = (\<lparr>is_directory = False\<rparr>, t)"

definition dir_event :: "real \<Rightarrow> event \<times> real" where
  "dir_event t = (\<lparr>is_directory = True\<rparr>, t)"

lemmas ex_defs =
  ex_cfg_def file_at_def dir_at_def ex_env_def ex_tick_def file_event_def dir_event_def
  init_state_def

section \<open>Facts about the model\<close>

subsection \<open>The deletion loop and the sort\<close>

lemma remove_loop_eq:
  "remove_loop rm_fails xs s =
     (if removed_of rm_fails xs = xs then None else Some OSError,
      s\<lparr>files := filter (\<lambda>f. name f \<notin> set (map name (removed_of rm_fails xs))) (files s),
        log_lines := log_lines s @ map cleanup_line (removed_of rm_fails xs)\<rparr>)"
proof (induction xs arbitrary: s)
  case Nil
  then show ?case by (simp add: removed_of_def)
next
  case (Cons x xs)
  show ?case
  proof (cases "rm_fails (name x)")
    case True
    then show ?thesis by (simp add: removed_of_def)
  next
    case False
    have "filter (\<lambda>f. name f \<notin> set (map name (removed_of rm_fails xs)))
            (filter (\<lambda>f. name f \<noteq> name x) (files s))
          = filter (\<lambda>f. name f \<notin> set (map name (x # removed_of rm_fails xs))) (files s)"
      by (auto intro: filter_cong)
    with False Cons.IH show ?thesis
      by (simp add: removed_of_def log_message_def cleanup_line_def)
  qed
qed

lemma set_sorted_reverse: "set (sorted_reverse k xs) = set xs"
  by (simp add: sorted_reverse_def)

lemma length_sorted_reverse: "length (sorted_reverse k xs) = length xs"
  by (simp add: sorted_reverse_def)

lemma distinct_sorted_reverse: "distinct (sorted_reverse k xs) = distinct xs"
  by (simp add: sorted_reverse_def)

lemma sorted_reverse_desc: "sorted (rev (map k (sorted_reverse k xs)))"
  by (simp add: sorted_reverse_def rev_map)

lemma sorted_reverse_stable:
  "filter (\<lambda>x. k x = v) (sorted_reverse k xs) = filter (\<lambda>x. k x = v) xs"
  by (simp add: sorted_reverse_def rev_filter [symmetric] sort_key_stable)


lemma sorted_reverse_wrt: "sorted_wrt (\<lambda>a b. k b \<le> k a) (sorted_reverse k xs)"
proof -
  have "sorted (map k (sort_key k (rev xs)))" by simp
  then have "sorted_wrt (\<lambda>a b. k a \<le> k b) (sort_key k (rev xs))"
    by (simp only: sorted_wrt_map sorted_sort_key)
  then show ?thesis
    by (simp add: sorted_reverse_def sorted_wrt_rev)
qed

lemma kept_newer:
  assumes "x \<in> set (take n (sorted_reverse k xs))" and "y \<in> set (drop n (sorted_reverse k xs))"
  shows "k y \<le> k x"
proof -
  have "sorted_wrt (\<lambda>a b. k b \<le> k a)
          (take n (sorted_reverse k xs) @ drop n (sorted_reverse k xs))"
    using sorted_reverse_wrt [of k xs] by simp
  with assms show ?thesis
    unfolding sorted_wrt_append by blast
qed

lemma set_items: "set (items s) = {f \<in> set (files s). matching f}"
  by (auto simp: items_def set_sorted_reverse)

lemma distinct_files: "distinct (map name fs) \<Longrightarrow> distinct fs"
  by (rule distinct_map [THEN iffD1, THEN conjunct1])

lemma distinct_items: "distinct (map name (files s)) \<Longrightarrow> distinct (items s)"
  by (simp add: items_def distinct_sorted_reverse distinct_files)

lemma name_mem_iff:
  assumes "distinct (map name fs)" and "set ys \<subseteq> set fs" and "f \<in> set fs"
  shows "name f \<in> set (map name ys) \<longleftrightarrow> f \<in> set ys"
proof
  assume "name f \<in> set (map name ys)"
  then obtain g where g: "g \<in> set ys" "name g = name f" by auto
  from assms(1) have "inj_on name (set fs)" by (simp add: distinct_map)
  with g assms(2,3) have "g = f" by (auto dest: inj_onD)
  with g show "f \<in> set ys" by simp
qed auto

lemma filter_names_entries:
  assumes "distinct (map name fs)" and "set ys \<subseteq> set fs"
  shows "filter (\<lambda>f. name f \<notin> set (map name ys)) fs = filter (\<lambda>f. f \<notin> set ys) fs"
  using name_mem_iff [OF assms] by (intro filter_cong) auto

lemma removed_of_all:
  "(\<forall>f \<in> set xs. \<not> rm_fails (name f)) \<Longrightarrow> removed_of rm_fails xs = xs"
  by (simp add: removed_of_def)

lemma excess_subset: "set (drop n (items s)) \<subseteq> set (files s)"
  using set_drop_subset [of n "items s"] by (auto simp: set_items)

lemma cleanup_all_removed:
  assumes pos: "0 < buffer_size cfg"
    and dist: "distinct (map name (files s))"
    and ok: "\<forall>f \<in> set (drop (nat (buffer_size cfg)) (items s)). \<not> rm_fails (name f)"
  shows "cleanup_backups cfg rm_fails s =
           (None, s\<lparr>files := filter (\<lambda>f. f \<notin> set (drop (nat (buffer_size cfg)) (items s))) (files s),
                    log_lines := log_lines s @ map cleanup_line (drop (nat (buffer_size cfg)) (items s))\<rparr>)"
  using pos removed_of_all [OF ok] filter_names_entries [OF dist excess_subset]
  by (simp add: cleanup_backups_def slice_from_def remove_loop_eq)

lemma kept_matching:
  assumes dist: "distinct (map name (files s))"
  shows "filter matching (filter (\<lambda>f. f \<notin> set (drop n (items s))) (files s))
         = filter (\<lambda>f. f \<in> set (take n (items s))) (filter matching (files s))"
proof -
  let ?T = "set (take n (items s))" and ?D = "set (drop n (items s))"
  have "distinct (take n (items s) @ drop n (items s))"
    using distinct_items [OF dist] by simp
  then have d: "?T \<inter> ?D = {}"
    by (simp only: distinct_append)
  have u: "?T \<union> ?D = set (items s)"
    by (metis append_take_drop_id set_append)
  have "(f \<notin> ?D \<and> matching f) = (matching f \<and> f \<in> ?T)" if "f \<in> set (files s)" for f
  proof (cases "matching f")
    case True
    with that have "f \<in> ?T \<union> ?D" unfolding u by (simp add: set_items)
    with d True show ?thesis by blast
  next
    case False
    then show ?thesis by simp
  qed
  then have "filter (\<lambda>f. f \<notin> ?D \<and> matching f) (files s)
             = filter (\<lambda>f. matching f \<and> f \<in> ?T) (files s)"
    by (rule filter_cong [OF refl])
  then show ?thesis
    by (simp only: filter_filter conj_commute)
qed

lemma length_kept:
  assumes dist: "distinct (map name (files s))"
  shows "length (filter (\<lambda>f. f \<in> set (take n (items s))) (filter matching (files s)))
         = min n (length (filter matching (files s)))"
proof -
  let ?K = "filter (\<lambda>f. f \<in> set (take n (items s))) (filter matching (files s))"
  have "set (take n (items s)) \<subseteq> set (items s)" by (rule set_take_subset)
  then have "set ?K = set (take n (items s))" by (auto simp: set_items)
  moreover have "distinct ?K" using distinct_files [OF dist] by simp
  moreover have "distinct (take n (items s))" using distinct_items [OF dist] by simp
  ultimately have "length ?K = length (take n (items s))"
    by (metis distinct_card)
  then show ?thesis
    by (simp add: items_def length_sorted_reverse min.commute)
qed



lemma on_any_event_frame [simp]:
  "last_backup_time (on_any_event ev t s) = last_backup_time s"
  "files (on_any_event ev t s) = files s"
  "log_lines (on_any_event ev t s) = log_lines s"
  by (simp_all add: on_any_event_def)

lemma deliver_Nil [simp]: "deliver [] s = s"
  by (simp add: deliver_def)

lemma deliver_Cons [simp]: "deliver ((ev, t) # evs) s = deliver evs (on_any_event ev t s)"
  by (simp add: deliver_def)

lemma deliver_frame [simp]:
  "last_backup_time (deliver evs s) = last_backup_time s"
  "files (deliver evs s) = files s"
  "log_lines (deliver evs s) = log_lines s"
  by (induction evs arbitrary: s; auto)+

lemma deliver_directories:
  "\<forall>(ev, t) \<in> set evs. is_directory ev \<Longrightarrow> deliver evs s = s"
  by (induction evs arbitrary: s) (auto simp: on_any_event_def)






lemma create_backup_fails:
  assumes "\<not> write_succeeds cfg env s"
  shows "fst (create_backup cfg env s) \<noteq> None
     \<and> last_backup_time (snd (create_backup cfg env s)) = last_backup_time s
     \<and> last_change_time (snd (create_backup cfg env s)) = last_change_time s
     \<and> log_lines (snd (create_backup cfg env s)) = log_lines s"
proof (cases "write_result env")
  case Written
  with assms show ?thesis
    by (simp add: create_backup_def write_succeeds_def Let_def split: if_splits)
next
  case FailsBeforeCreate
  then show ?thesis
    by (simp add: create_backup_def Let_def)
next
  case FailsAfterCreate
  then show ?thesis
    by (simp add: create_backup_def Let_def)
qed



lemma failed_write:
  assumes sb: "should_backup cfg (poll_time tk) (deliver (events tk) s)"
    and wf: "\<not> write_succeeds cfg (cycle tk) (deliver (events tk) s)"
  shows "fst (poll_step cfg tk s) \<noteq> None
     \<and> last_backup_time (snd (poll_step cfg tk s)) = last_backup_time s
     \<and> log_lines (snd (poll_step cfg tk s)) = log_lines s
     \<and> start_loop cfg (tk # rest) s = poll_step cfg tk s
     \<and> (\<forall>now \<ge> poll_time tk. should_backup cfg now (snd (poll_step cfg tk s)))"
proof -
  let ?s1 = "deliver (events tk) s"
  have ps: "poll_step cfg tk s = create_backup cfg (cycle tk) ?s1"
    using sb by (simp add: poll_step_def)
  note cf = create_backup_fails [OF wf]
  have 1: "fst (poll_step cfg tk s) \<noteq> None" using cf ps by simp
  have 2: "last_backup_time (snd (poll_step cfg tk s)) = last_backup_time s"
    using cf ps by simp
  have 3: "log_lines (snd (poll_step cfg tk s)) = log_lines s"
    using cf ps by simp
  obtain r s' where step: "poll_step cfg tk s = (r, s')"
    by (cases "poll_step cfg tk s")
  with 1 obtain e where "r = Some e" by auto
  with step have 4: "start_loop cfg (tk # rest) s = poll_step cfg tk s"
    by simp
  have lc: "last_change_time (snd (poll_step cfg tk s)) = last_change_time ?s1"
    using cf ps by simp
  have 5: "should_backup cfg now (snd (poll_step cfg tk s))" if "poll_time tk \<le> now" for now
    using sb that unfolding should_backup_def lc 2 by simp
  from 1 2 3 4 5 show ?thesis by blast
qed

lemma copy_collision:
  "\<not> use_zip cfg \<Longrightarrow> exists_entry (backup_name cfg (timestamp env)) (files s) \<Longrightarrow>
   create_backup cfg env s =
     (Some (if write_result env = FailsBeforeCreate then OSError else FileExistsError), s)"
  by (simp add: create_backup_def Let_def)

lemma init_no_backup: "\<not> should_backup cfg now (init_state fs lg)"
  by (simp add: should_backup_def init_state_def)

lemma loop_directories:
  "\<forall>tk \<in> set ticks. \<forall>(ev, t) \<in> set (events tk). is_directory ev \<Longrightarrow>
   start_loop cfg ticks (init_state fs lg) = (None, init_state fs lg)"
  by (induction ticks) (simp_all add: poll_step_def deliver_directories init_no_backup)


subsection \<open>The clean-up as a whole\<close>

lemma cleanup_backups_eq:
  "cleanup_backups cfg rm_fails s =
     (if removed_of rm_fails (excess cfg s) = excess cfg s then None else Some OSError,
      s\<lparr>files := filter (\<lambda>f. name f \<notin> set (map name (removed_of rm_fails (excess cfg s))))
                  (files s),
        log_lines := log_lines s @ map cleanup_line (removed_of rm_fails (excess cfg s))\<rparr>)"
  by (simp add: cleanup_backups_def excess_def remove_loop_eq removed_of_def)







section \<open>Retention\<close>

text \<open>
  Claim C7. With a retention count \<open>buffer_size \<le> 0\<close>, \<^verbatim>\<open>cleanup_backups\<close> returns at
  once: it raises nothing and leaves the directory, the log and the timestamps as they
  were, whatever the directory holds and whichever deletions would fail.
\<close>

theorem cleanup_unlimited_noop:
  "buffer_size cfg \<le> 0 \<Longrightarrow> cleanup_backups cfg rm_fails s = (None, s)"
  by (simp add: cleanup_backups_def)

theorem cleanup_unlimited_noop_witness:
  "buffer_size \<lparr>source_path = ''/data/src'', backup_dir = ''/data/AutoBackups'',
                 buffer_size = - 1, cooldown = 5, use_zip = True\<rparr> \<le> 0
   \<and> cleanup_backups
        \<lparr>source_path = ''/data/src'', backup_dir = ''/data/AutoBackups'',
         buffer_size = - 1, cooldown = 5, use_zip = True\<rparr>
        (\<lambda>n. False)
        (init_state [\<lparr>name = ''src_1.zip'', is_dir = False, mtime = 1\<rparr>,
                     \<lparr>name = ''src_2.zip'', is_dir = False, mtime = 2\<rparr>] [])
      = (None, init_state [\<lparr>name = ''src_1.zip'', is_dir = False, mtime = 1\<rparr>,
                           \<lparr>name = ''src_2.zip'', is_dir = False, mtime = 2\<rparr>] [])"
  using cleanup_unlimited_noop
    [of "\<lparr>source_path = ''/data/src'', backup_dir = ''/data/AutoBackups'',
          buffer_size = - 1, cooldown = 5, use_zip = True\<rparr>"
        "\<lambda>n. False"
        "init_state [\<lparr>name = ''src_1.zip'', is_dir = False, mtime = 1\<rparr>,
                     \<lparr>name = ''src_2.zip'', is_dir = False, mtime = 2\<rparr>] []"]
  by simp

text \<open>
  Claim C2. With a retention count \<open>N = buffer_size > 0\<close>, in a directory whose names are
  distinct and where no deletion of an excess artifact raises, \<^verbatim>\<open>cleanup_backups\<close>
  returns normally and leaves exactly \<open>min N total\<close> matching artifacts, where \<open>total\<close>
  is the number of matching artifacts before; they are the first \<open>N\<close> of the artifacts as
  ordered before the deletions (most recently modified first), every deleted one is at most
  as recent as every kept one, and nothing but the artifacts after the first \<open>N\<close> leaves
  the directory.
\<close>

theorem retention_invariant:
  assumes pos: "0 < buffer_size cfg"
    and dist: "distinct (map name (files s))"
    and ok: "\<forall>f \<in> set (slice_from (items s) (buffer_size cfg)). \<not> rm_fails (name f)"
  shows "fst (cleanup_backups cfg rm_fails s) = None
     \<and> int (length (filter matching (files (snd (cleanup_backups cfg rm_fails s)))))
         = min (buffer_size cfg) (int (length (filter matching (files s))))
     \<and> filter matching (files (snd (cleanup_backups cfg rm_fails s)))
         = filter (\<lambda>f. f \<in> set (take (nat (buffer_size cfg)) (items s)))
             (filter matching (files s))
     \<and> files (snd (cleanup_backups cfg rm_fails s))
         = filter (\<lambda>f. f \<notin> set (drop (nat (buffer_size cfg)) (items s))) (files s)
     \<and> (\<forall>kept \<in> set (take (nat (buffer_size cfg)) (items s)).
          \<forall>gone \<in> set (drop (nat (buffer_size cfg)) (items s)). mtime gone \<le> mtime kept)"
proof -
  let ?n = "nat (buffer_size cfg)"
  from pos ok have ok': "\<forall>f \<in> set (drop ?n (items s)). \<not> rm_fails (name f)"
    by (simp add: slice_from_def)
  note eq = cleanup_all_removed [OF pos dist ok']
  have 1: "fst (cleanup_backups cfg rm_fails s) = None"
    by (simp add: eq)
  have 4: "files (snd (cleanup_backups cfg rm_fails s))
           = filter (\<lambda>f. f \<notin> set (drop ?n (items s))) (files s)"
    by (simp add: eq)
  have 3: "filter matching (files (snd (cleanup_backups cfg rm_fails s)))
           = filter (\<lambda>f. f \<in> set (take ?n (items s))) (filter matching (files s))"
    unfolding 4 by (rule kept_matching [OF dist])
  have "length (filter matching (files (snd (cleanup_backups cfg rm_fails s))))
        = min ?n (length (filter matching (files s)))"
    unfolding 3 by (rule length_kept [OF dist])
  with pos have 2: "int (length (filter matching (files (snd (cleanup_backups cfg rm_fails s)))))
        = min (buffer_size cfg) (int (length (filter matching (files s))))"
    by simp
  have 5: "\<forall>kept \<in> set (take ?n (items s)). \<forall>gone \<in> set (drop ?n (items s)).
             mtime gone \<le> mtime kept"
    unfolding items_def by (blast intro: kept_newer)
  from 1 2 3 4 5 show ?thesis by blast
qed

theorem retention_invariant_witness:
  "0 < buffer_size (ex_cfg 2 True)
   \<and> distinct (map name [file_at ''a.zip'' 1, dir_at ''b'' 3, file_at ''c.zip'' 2,
                         file_at ''backup_log.txt'' 9])
   \<and> fst (cleanup_backups (ex_cfg 2 True) (\<lambda>n. False)
             (init_state [file_at ''a.zip'' 1, dir_at ''b'' 3, file_at ''c.zip'' 2,
                          file_at ''backup_log.txt'' 9] [])) = None
   \<and> files (snd (cleanup_backups (ex_cfg 2 True) (\<lambda>n. False)
             (init_state [file_at ''a.zip'' 1, dir_at ''b'' 3, file_at ''c.zip'' 2,
                          file_at ''backup_log.txt'' 9] [])))
       = [dir_at ''b'' 3, file_at ''c.zip'' 2, file_at ''backup_log.txt'' 9]"
proof -
  let ?s = "init_state [file_at ''a.zip'' 1, dir_at ''b'' 3, file_at ''c.zip'' 2,
                        file_at ''backup_log.txt'' 9] []"
  have it: "items ?s = [dir_at ''b'' 3, file_at ''c.zip'' 2, file_at ''a.zip'' 1]"
    by (simp add: items_def sorted_reverse_def matching_def endswith_def ex_defs)
  have h1: "0 < buffer_size (ex_cfg 2 True)"
    by (simp add: ex_cfg_def)
  have h2: "distinct (map name (files ?s))"
    by (simp add: ex_defs)
  have h3: "\<forall>f \<in> set (slice_from (items ?s) (buffer_size (ex_cfg 2 True))).
              \<not> (\<lambda>n. False) (name f)"
    by simp
  from retention_invariant [OF h1 h2 h3] it h1 h2 show ?thesis
    by (simp add: ex_defs)
qed



text \<open>
  Claim C5, as the code has it. The deletions run in the order of the excess artifacts and
  stop at the first one that raises: the artifacts before it are deleted and logged, the
  failing one and all after it stay, and the exception leaves \<^verbatim>\<open>cleanup_backups\<close>.
  Nothing is returned: neither a list of removed artifacts nor an aggregated error.
\<close>

theorem cleanup_stops_at_first_failure:
  "cleanup_backups cfg rm_fails s =
     (if takeWhile (\<lambda>f. \<not> rm_fails (name f)) (excess cfg s) = excess cfg s
      then None else Some OSError,
      s\<lparr>files :=
           filter (\<lambda>f. name f \<notin> set (map name
                     (takeWhile (\<lambda>f. \<not> rm_fails (name f)) (excess cfg s)))) (files s),
        log_lines :=
           log_lines s @ map (\<lambda>f. ''[CLEANUP] Removed old backup: '' @ name f)
                           (takeWhile (\<lambda>f. \<not> rm_fails (name f)) (excess cfg s))\<rparr>)"
proof -
  have "cleanup_line = (\<lambda>f. ''[CLEANUP] Removed old backup: '' @ name f)"
    by (rule ext) (simp add: cleanup_line_def)
  then show ?thesis
    using cleanup_backups_eq [of cfg rm_fails s] by (simp add: removed_of_def)
qed

theorem cleanup_stops_at_first_failure_witness:
  "cleanup_backups (ex_cfg 1 True) (\<lambda>n. n = ''a.zip'')
     (init_state [file_at ''a.zip'' 1, file_at ''b.zip'' 2, file_at ''c.zip'' 3] [])
   = (Some OSError,
      \<lparr>last_change_time = 0, last_backup_time = 0,
       files = [file_at ''a.zip'' 1, file_at ''c.zip'' 3],
       log_lines = [''[CLEANUP] Removed old backup: b.zip'']\<rparr>)"
proof -
  let ?s = "init_state [file_at ''a.zip'' 1, file_at ''b.zip'' 2, file_at ''c.zip'' 3] []"
  have ex: "excess (ex_cfg 1 True) ?s = [file_at ''b.zip'' 2, file_at ''a.zip'' 1]"
    by (simp add: excess_def slice_from_def items_def sorted_reverse_def matching_def
        endswith_def ex_defs)
  show ?thesis
    using cleanup_stops_at_first_failure [of "ex_cfg 1 True" "\<lambda>n. n = ''a.zip''" ?s]
    unfolding ex by (simp add: ex_defs)
qed

text \<open>
  The claim as the specification states it fails: with three archives and a retention
  count of 1, the deletion of \<^verbatim>\<open>b.zip\<close> raises and \<^verbatim>\<open>a.zip\<close>, whose deletion
  would succeed, is never attempted; nothing is deleted and nothing is logged.
\<close>

theorem deletion_failure_counterexample:
  "cleanup_backups (ex_cfg 1 True) (\<lambda>n. n = ''b.zip'')
     (init_state [file_at ''a.zip'' 1, file_at ''b.zip'' 2, file_at ''c.zip'' 3] [])
   = (Some OSError,
      init_state [file_at ''a.zip'' 1, file_at ''b.zip'' 2, file_at ''c.zip'' 3] [])
   \<and> cleanup_backups (ex_cfg 1 True) (\<lambda>n. False)
     (init_state [file_at ''a.zip'' 1, file_at ''b.zip'' 2, file_at ''c.zip'' 3] [])
   = (None,
      init_state [file_at ''c.zip'' 3]
        [''[CLEANUP] Removed old backup: b.zip'', ''[CLEANUP] Removed old backup: a.zip''])"
  by (simp add: cleanup_backups_def slice_from_def items_def sorted_reverse_def matching_def
      endswith_def log_message_def ex_defs)

section \<open>The order of the artifacts\<close>

text \<open>
  Claim C6, as the code has it. \<open>items\<close> is in descending order of modification time, and
  artifacts with the same modification time keep the order in which \<^verbatim>\<open>os.listdir\<close>
  returned them: the sort is stable and the name is no part of its key.
\<close>

theorem items_order:
  "sorted_wrt (\<lambda>a b. mtime b \<le> mtime a) (items s)
   \<and> filter (\<lambda>f. mtime f = t) (items s) = filter (\<lambda>f. mtime f = t) (filter matching (files s))"
  by (simp add: items_def sorted_reverse_wrt sorted_reverse_stable)

theorem items_order_witness:
  "sorted_wrt (\<lambda>a b. mtime b \<le> mtime a)
     (items (init_state [file_at ''a.zip'' 1, file_at ''c.zip'' 2, file_at ''b.zip'' 1] []))
   \<and> filter (\<lambda>f. mtime f = 1)
       (items (init_state [file_at ''a.zip'' 1, file_at ''c.zip'' 2, file_at ''b.zip'' 1] []))
     = [file_at ''a.zip'' 1, file_at ''b.zip'' 1]"
  using items_order [of "init_state [file_at ''a.zip'' 1, file_at ''c.zip'' 2, file_at ''b.zip'' 1] []" 1]
  by (simp add: matching_def endswith_def ex_defs)

text \<open>
  The claim as the specification states it fails: two archives with the same modification
  time come out in listing order, \<^verbatim>\<open>a.zip\<close> before \<^verbatim>\<open>b.zip\<close>, which is not name
  descending; with a retention count of 1 the survivor is whichever the listing puts first.
\<close>

theorem name_tiebreak_counterexample:
  "items (init_state [file_at ''a.zip'' 1, file_at ''b.zip'' 1] [])
     = [file_at ''a.zip'' 1, file_at ''b.zip'' 1]
   \<and> \<not> sorted_wrt spec_before (items (init_state [file_at ''a.zip'' 1, file_at ''b.zip'' 1] []))
   \<and> items (init_state [file_at ''b.zip'' 1, file_at ''a.zip'' 1] [])
     = [file_at ''b.zip'' 1, file_at ''a.zip'' 1]
   \<and> files (snd (cleanup_backups (ex_cfg 1 True) (\<lambda>n. False)
               (init_state [file_at ''a.zip'' 1, file_at ''b.zip'' 1] [])))
     = [file_at ''a.zip'' 1]
   \<and> files (snd (cleanup_backups (ex_cfg 1 True) (\<lambda>n. False)
               (init_state [file_at ''b.zip'' 1, file_at ''a.zip'' 1] [])))
     = [file_at ''b.zip'' 1]"
  by (simp add: cleanup_backups_def slice_from_def items_def sorted_reverse_def matching_def
      endswith_def log_message_def spec_before_def ex_defs)

section \<open>The debounce decision\<close>



text \<open>
  Claim C10. An event whose subject is a directory leaves the state as it is, so a stream
  of directory events changes no answer of \<^verbatim>\<open>should_backup\<close>; after such a stream
  from the initial state \<^verbatim>\<open>should_backup\<close> is false at every poll time, and a polling
  loop that sees directory events only never creates a backup, logs nothing and raises
  nothing.
\<close>

theorem directory_events_never_trigger:
  assumes "\<forall>(ev, t) \<in> set evs. is_directory ev"
    and "\<forall>tk \<in> set ticks. \<forall>(ev, t) \<in> set (events tk). is_directory ev"
  shows "deliver evs s = s
     \<and> should_backup cfg now (deliver evs s) = should_backup cfg now s
     \<and> \<not> should_backup cfg now (deliver evs (init_state fs lg))
     \<and> start_loop cfg ticks (init_state fs lg) = (None, init_state fs lg)"
  using deliver_directories [OF assms(1)] loop_directories [OF assms(2)]
  by (simp add: init_no_backup)

theorem directory_events_never_trigger_witness:
  "(case dir_event 1 of (ev, t) \<Rightarrow> is_directory ev)
   \<and> deliver [dir_event 1, dir_event 2] ((init_state [] [])\<lparr>last_change_time := 1\<rparr>)
       = (init_state [] [])\<lparr>last_change_time := 1\<rparr>
   \<and> start_loop (ex_cfg 5 True)
        [ex_tick [dir_event 1, dir_event 2] 10 (ex_env ''2026-01-01_00-00-10'' Written 10),
         ex_tick [dir_event 11] 20 (ex_env ''2026-01-01_00-00-20'' Written 20)]
        (init_state [] [])
       = (None, init_state [] [])"
proof -
  have h1: "\<forall>(ev, t) \<in> set [dir_event 1, dir_event 2]. is_directory ev"
    by (simp add: dir_event_def)
  have h2: "\<forall>tk \<in> set [ex_tick [dir_event 1, dir_event 2] 10 (ex_env ''2026-01-01_00-00-10'' Written 10),
         ex_tick [dir_event 11] 20 (ex_env ''2026-01-01_00-00-20'' Written 20)].
         \<forall>(ev, t) \<in> set (events tk). is_directory ev"
    by (simp add: dir_event_def ex_tick_def)
  have h0: "(case dir_event 1 of (ev, t) \<Rightarrow> is_directory ev)"
    by (simp add: dir_event_def)
  from directory_events_never_trigger [OF h1 h2] h0 show ?thesis
    by blast
qed

section \<open>The backup cycle\<close>



text \<open>
  Claim C4, as the code has it. When \<^verbatim>\<open>should_backup\<close> holds and the write of the
  snapshot raises, the exception leaves \<^verbatim>\<open>create_backup\<close>: nothing is logged and
  \<^verbatim>\<open>last_backup_time\<close> keeps its value, so \<^verbatim>\<open>should_backup\<close> would hold at every later
  poll time. But the exception also leaves the polling loop, which catches
  \<^verbatim>\<open>KeyboardInterrupt\<close> only: the loop ends with this iteration, whatever iterations
  would have followed.
\<close>

theorem failed_write_ends_loop:
  assumes "should_backup cfg (poll_time tk) (deliver (events tk) s)"
    and "\<not> write_succeeds cfg (cycle tk) (deliver (events tk) s)"
  shows "fst (poll_step cfg tk s) \<noteq> None
     \<and> last_backup_time (snd (poll_step cfg tk s)) = last_backup_time s
     \<and> log_lines (snd (poll_step cfg tk s)) = log_lines s
     \<and> start_loop cfg (tk # rest) s = poll_step cfg tk s
     \<and> (\<forall>now \<ge> poll_time tk. should_backup cfg now (snd (poll_step cfg tk s)))"
  by (rule failed_write [OF assms])

theorem failed_write_ends_loop_witness:
  "should_backup (ex_cfg 5 True) 15 (deliver [file_event 10] (init_state [] []))
   \<and> \<not> write_succeeds (ex_cfg 5 True) (ex_env ''2026-01-01_00-00-15'' FailsBeforeCreate 16)
         (deliver [file_event 10] (init_state [] []))
   \<and> start_loop (ex_cfg 5 True)
        [ex_tick [file_event 10] 15 (ex_env ''2026-01-01_00-00-15'' FailsBeforeCreate 16),
         ex_tick [] 16 (ex_env ''2026-01-01_00-00-16'' Written 17)] (init_state [] [])
     = poll_step (ex_cfg 5 True)
        (ex_tick [file_event 10] 15 (ex_env ''2026-01-01_00-00-15'' FailsBeforeCreate 16))
        (init_state [] [])"
proof -
  let ?tk = "ex_tick [file_event 10] 15 (ex_env ''2026-01-01_00-00-15'' FailsBeforeCreate 16)"
  have h1: "should_backup (ex_cfg 5 True) (poll_time ?tk) (deliver (events ?tk) (init_state [] []))"
    by (simp add: should_backup_def on_any_event_def ex_defs)
  have h2: "\<not> write_succeeds (ex_cfg 5 True) (cycle ?tk) (deliver (events ?tk) (init_state [] []))"
    by (simp add: write_succeeds_def ex_defs)
  have e: "poll_time ?tk = 15" "events ?tk = [file_event 10]"
    "cycle ?tk = ex_env ''2026-01-01_00-00-15'' FailsBeforeCreate 16"
    by (simp_all add: ex_tick_def)
  from failed_write_ends_loop [OF h1 h2, of "[ex_tick [] 16 (ex_env ''2026-01-01_00-00-16'' Written 17)]"]
    h1 h2 show ?thesis
    unfolding e by blast
qed

text \<open>
  The claim as the specification states it fails: the write of the first cycle raises, the
  write of the next iteration would succeed and create an archive, but the loop has ended
  with the exception; there is no retry, and the log holds no line about the error.
\<close>

theorem failed_write_counterexample:
  "start_loop (ex_cfg 5 True)
     [ex_tick [file_event 10] 15 (ex_env ''2026-01-01_00-00-15'' FailsBeforeCreate 16),
      ex_tick [] 16 (ex_env ''2026-01-01_00-00-16'' Written 17)] (init_state [] [])
   = (Some OSError,
      \<lparr>last_change_time = 10, last_backup_time = 0, files = [], log_lines = []\<rparr>)
   \<and> poll_step (ex_cfg 5 True) (ex_tick [] 16 (ex_env ''2026-01-01_00-00-16'' Written 17))
       \<lparr>last_change_time = 10, last_backup_time = 0, files = [], log_lines = []\<rparr>
   = (None,
      \<lparr>last_change_time = 10, last_backup_time = 17,
       files = [file_at ''src_2026-01-01_00-00-16.zip'' 17],
       log_lines = [''[BACKUP] Created ZIP: /data/AutoBackups/src_2026-01-01_00-00-16.zip'']\<rparr>)"
  by (simp add: poll_step_def should_backup_def create_backup_def finish_backup_def
      cleanup_backups_def slice_from_def items_def sorted_reverse_def matching_def
      endswith_def log_message_def put_entry_def exists_entry_def isdir_def backup_name_def
      basename_def path_join_def on_any_event_def Let_def ex_defs)

text \<open>
  Claim C3, as the code has it in copy mode. When an entry with the computed name exists,
  \<^verbatim>\<open>create_backup\<close> raises before anything is written (\<^verbatim>\<open>FileExistsError\<close>, unless
  listing the source has failed already): the directory, the log and both timestamps are
  unchanged, so the earlier artifact is intact. The exception is not caught and not written
  to the log.
\<close>

theorem copy_collision_fails:
  assumes "\<not> use_zip cfg"
    and "exists_entry (backup_name cfg (timestamp env)) (files s)"
  shows "create_backup cfg env s =
           (Some (if write_result env = FailsBeforeCreate then OSError else FileExistsError), s)"
  using assms by (rule copy_collision)

theorem copy_collision_fails_witness:
  "\<not> use_zip (ex_cfg 5 False)
   \<and> exists_entry (backup_name (ex_cfg 5 False) ''2026-01-01_00-00-00'')
       [dir_at ''src_2026-01-01_00-00-00'' 20]
   \<and> create_backup (ex_cfg 5 False) (ex_env ''2026-01-01_00-00-00'' Written 21)
       (snd (create_backup (ex_cfg 5 False) (ex_env ''2026-01-01_00-00-00'' Written 20)
               (init_state [] [])))
     = (Some FileExistsError,
        \<lparr>last_change_time = 0, last_backup_time = 20,
         files = [dir_at ''src_2026-01-01_00-00-00'' 20],
         log_lines = [''[BACKUP] Copied folder: /data/AutoBackups/src_2026-01-01_00-00-00'']\<rparr>)"
proof -
  let ?s1 = "\<lparr>last_change_time = 0, last_backup_time = 20,
         files = [dir_at ''src_2026-01-01_00-00-00'' 20],
         log_lines = [''[BACKUP] Copied folder: /data/AutoBackups/src_2026-01-01_00-00-00'']\<rparr>"
  have first: "snd (create_backup (ex_cfg 5 False) (ex_env ''2026-01-01_00-00-00'' Written 20)
               (init_state [] [])) = ?s1"
    by (simp add: create_backup_def finish_backup_def
      cleanup_backups_def slice_from_def items_def sorted_reverse_def matching_def
      endswith_def log_message_def put_entry_def exists_entry_def isdir_def backup_name_def
      basename_def path_join_def Let_def ex_defs)
  have h1: "\<not> use_zip (ex_cfg 5 False)"
    by (simp add: ex_cfg_def)
  have h2: "exists_entry (backup_name (ex_cfg 5 False)
              (timestamp (ex_env ''2026-01-01_00-00-00'' Written 21))) (files ?s1)"
    by (simp add: exists_entry_def backup_name_def basename_def ex_defs)
  have h2': "exists_entry (backup_name (ex_cfg 5 False) ''2026-01-01_00-00-00'')
       [dir_at ''src_2026-01-01_00-00-00'' 20]"
    using h2 by (simp add: ex_env_def)
  have w: "write_result (ex_env ''2026-01-01_00-00-00'' Written 21) \<noteq> FailsBeforeCreate"
    by (simp add: ex_env_def)
  from copy_collision_fails [OF h1 h2] h1 h2' w show ?thesis
    unfolding first by simp
qed

text \<open>
  The claim as the specification states it fails in archive mode: a second cycle with the
  same timestamp string raises nothing, logs a second creation and replaces the archive of
  the first cycle (its modification time is now that of the second write).
\<close>

theorem zip_collision_counterexample:
  "create_backup (ex_cfg 5 True) (ex_env ''2026-01-01_00-00-00'' Written 20) (init_state [] [])
   = (None,
      \<lparr>last_change_time = 0, last_backup_time = 20,
       files = [file_at ''src_2026-01-01_00-00-00.zip'' 20],
       log_lines = [''[BACKUP] Created ZIP: /data/AutoBackups/src_2026-01-01_00-00-00.zip'']\<rparr>)
   \<and> create_backup (ex_cfg 5 True) (ex_env ''2026-01-01_00-00-00'' Written 21)
       \<lparr>last_change_time = 0, last_backup_time = 20,
        files = [file_at ''src_2026-01-01_00-00-00.zip'' 20],
        log_lines = [''[BACKUP] Created ZIP: /data/AutoBackups/src_2026-01-01_00-00-00.zip'']\<rparr>
   = (None,
      \<lparr>last_change_time = 0, last_backup_time = 21,
       files = [file_at ''src_2026-01-01_00-00-00.zip'' 21],
       log_lines = [''[BACKUP] Created ZIP: /data/AutoBackups/src_2026-01-01_00-00-00.zip'',
                    ''[BACKUP] Created ZIP: /data/AutoBackups/src_2026-01-01_00-00-00.zip'']\<rparr>)"
  by (simp add: create_backup_def finish_backup_def
      cleanup_backups_def slice_from_def items_def sorted_reverse_def matching_def
      endswith_def log_message_def put_entry_def exists_entry_def isdir_def backup_name_def
      basename_def path_join_def Let_def ex_defs)

end
